theory Spec2Isabelle
  imports Complex_Main "HOL-Library.Product_Lexorder"
begin

section \<open>Python failures as values\<close>

text \<open>
  Every raise of the source is a branch of the model. Amounts and indices are Python's
  unbounded integers (\<open>int\<close>); player identifiers are bot names (\<open>string\<close>).
\<close>

datatype py_error = AssertionError | IndexError | KeyError | ZeroDivisionError

type_synonym player = string

text \<open>\<^verbatim>\<open>xs[i]\<close> on a Python list: a negative index counts from the end, anything
  outside the list raises.\<close>

definition py_index :: "'a list \<Rightarrow> int \<Rightarrow> py_error + 'a" where
  "py_index xs i =
     (if 0 \<le> i \<and> i < int (length xs) then Inr (xs ! nat i)
      else if i < 0 \<and> - int (length xs) \<le> i then Inr (xs ! nat (int (length xs) + i))
      else Inl IndexError)"

section \<open>arena/betting.py: blinds and the blind rotation\<close>

record Blinds =
  small_blind :: int
  big_blind :: int

record BlindManager =
  hands_per_level :: int
  hands_this_level :: int
  bm_bots :: "player list"
  small_blinds_played :: "int list"
  sb_index :: int
  blind :: Blinds

definition BlindManager_init :: "int \<Rightarrow> player list \<Rightarrow> BlindManager" where
  "BlindManager_init hpl bs =
     \<lparr> hands_per_level = hpl, hands_this_level = 0, bm_bots = bs,
       small_blinds_played = replicate (length bs) 0, sb_index = 0,
       blind = \<lparr> small_blind = 10, big_blind = 20 \<rparr> \<rparr>"

text \<open>\<^verbatim>\<open>i % len(self.bots)\<close>: Python's modulo by a positive length is HOL's \<open>mod\<close>
  on \<open>int\<close>; by zero it raises.\<close>

definition wrap_index :: "BlindManager \<Rightarrow> int \<Rightarrow> py_error + int" where
  "wrap_index m i =
     (if length (bm_bots m) = 0 then Inl ZeroDivisionError
      else Inr (i mod int (length (bm_bots m))))"

definition next_sb :: "BlindManager \<Rightarrow> py_error + (int \<times> player)" where
  "next_sb m =
     (case py_index (bm_bots m) (sb_index m) of
        Inl e \<Rightarrow> Inl e
      | Inr b \<Rightarrow> Inr (small_blind (blind m), b))"

definition next_bb :: "BlindManager \<Rightarrow> py_error + (int \<times> player)" where
  "next_bb m =
     (case wrap_index m (sb_index m + 1) of
        Inl e \<Rightarrow> Inl e
      | Inr i \<Rightarrow>
          (case py_index (bm_bots m) i of
             Inl e \<Rightarrow> Inl e
           | Inr b \<Rightarrow> Inr (big_blind (blind m), b)))"

definition check_raise_blinds :: "BlindManager \<Rightarrow> BlindManager" where
  "check_raise_blinds m =
     (if hands_this_level m \<ge> hands_per_level m then m\<lparr>hands_this_level := 0\<rparr> else m)"

definition finish_hand :: "BlindManager \<Rightarrow> py_error + BlindManager" where
  "finish_hand m =
     (case wrap_index m (sb_index m + 1) of
        Inl e \<Rightarrow> Inl e
      | Inr i \<Rightarrow>
          Inr (check_raise_blinds
                 (m\<lparr>sb_index := i, hands_this_level := hands_this_level m + 1\<rparr>)))"

text \<open>
  The loop of \<^verbatim>\<open>eliminate_player\<close> walks \<^verbatim>\<open>enumerate(self.bots)\<close>, overwrites the
  matching seats with \<^verbatim>\<open>None\<close> and moves the pointer; the list keeps its length \<open>n\<close>
  until the loop is over. The arguments are the name, \<open>n\<close>, the current position, the
  seats still to visit and the pointer; the result is the marked seats and the pointer.
\<close>

fun eliminate_loop ::
  "player \<Rightarrow> nat \<Rightarrow> nat \<Rightarrow> player list \<Rightarrow> int \<Rightarrow> player option list \<times> int" where
  "eliminate_loop name n i [] sb = ([], sb)"
| "eliminate_loop name n i (p # ps) sb =
     (if name = p then
        (let sb' = (if sb > int i then (sb - 1) mod int n else sb);
             r = eliminate_loop name n (Suc i) ps sb'
         in (None # fst r, snd r))
      else
        (let r = eliminate_loop name n (Suc i) ps sb
         in (Some p # fst r, snd r)))"

definition eliminate_player :: "player \<Rightarrow> BlindManager \<Rightarrow> BlindManager" where
  "eliminate_player name m =
     (let r = eliminate_loop name (length (bm_bots m)) 0 (bm_bots m) (sb_index m)
      in m\<lparr>bm_bots := List.map_filter id (fst r), sb_index := snd r\<rparr>)"

section \<open>arena/betting.py: the betting limit and the betting round\<close>

text \<open>\<^verbatim>\<open>NoBetLimit.check_bet\<close>: legal iff strictly positive.\<close>

definition check_bet :: "int \<Rightarrow> int \<Rightarrow> bool" where
  "check_bet pot_now bet = (bet > 0)"

record BettingRound =
  pot :: int
  sidepot :: int
  bots :: "player list"
  bets :: "player \<rightharpoonup> int"
  high_better :: "player option"
  next_better_index :: int

definition set_better_index :: "int \<Rightarrow> BettingRound \<Rightarrow> BettingRound" where
  "set_better_index index s =
     (if next_better_index s = - 1 then s\<lparr>next_better_index := index\<rparr> else s)"

definition process_bet :: "int \<Rightarrow> player \<Rightarrow> bool \<Rightarrow> BettingRound \<Rightarrow> BettingRound" where
  "process_bet bet p is_blind s =
     (let s1 = (if bet > sidepot s
                then (let s0 = s\<lparr>sidepot := bet\<rparr>
                      in if \<not> is_blind then s0\<lparr>high_better := Some p\<rparr> else s0)
                else s)
      in s1\<lparr>bets := (bets s1)(p \<mapsto> bet)\<rparr>)"

text \<open>The constructor's loop over \<^verbatim>\<open>enumerate(self.bots)\<close>, with the position \<open>i\<close>.\<close>

fun init_loop :: "nat \<Rightarrow> player list \<Rightarrow> BettingRound \<Rightarrow> BettingRound" where
  "init_loop i [] s = s"
| "init_loop i (b # bs) s =
     init_loop (Suc i) bs
       (case bets s b of
          Some bet \<Rightarrow> process_bet bet b True (s\<lparr>pot := pot s + bet\<rparr>)
        | None \<Rightarrow> set_better_index (int i) (s\<lparr>bets := (bets s)(b \<mapsto> 0)\<rparr>))"

definition BettingRound_init :: "player list \<Rightarrow> (player \<rightharpoonup> int) \<Rightarrow> int \<Rightarrow> BettingRound" where
  "BettingRound_init bs forced pot0 =
     set_better_index 0
       (init_loop 0 bs
          \<lparr> pot = pot0, sidepot = 0, bots = bs, bets = forced,
            high_better = None, next_better_index = - 1 \<rparr>)"

definition is_staked :: "BettingRound \<Rightarrow> player \<Rightarrow> bool" where
  "is_staked s p = (bets s p \<noteq> None)"

definition can_bet :: "BettingRound \<Rightarrow> player \<Rightarrow> bool" where
  "can_bet s p = (is_staked s p \<and> Some p \<noteq> high_better s)"

definition next_better :: "BettingRound \<Rightarrow> py_error + player option" where
  "next_better s =
     (case py_index (bots s) (next_better_index s) of
        Inl e \<Rightarrow> Inl e
      | Inr b \<Rightarrow> Inr (if can_bet s b then Some b else None))"

text \<open>
  \<^verbatim>\<open>post_bet\<close>: the two prints call \<^verbatim>\<open>next_better()\<close> first (an index out of range
  raises there), the assertion fails for anyone but the next bettor, the index moves on,
  and the bet is either recorded (\<open>True\<close>) or the player is dropped (\<open>False\<close>).
\<close>

definition post_bet :: "BettingRound \<Rightarrow> player \<Rightarrow> int \<Rightarrow> py_error + (bool \<times> BettingRound)" where
  "post_bet s p bet =
     (case next_better s of
        Inl e \<Rightarrow> Inl e
      | Inr nb \<Rightarrow>
          if nb \<noteq> Some p then Inl AssertionError
          else if length (bots s) = 0 then Inl ZeroDivisionError
          else
            (let s1 = s\<lparr>next_better_index :=
                          (next_better_index s + 1) mod int (length (bots s))\<rparr>
             in case bets s1 p of
                  None \<Rightarrow> Inl KeyError
                | Some prev \<Rightarrow>
                    (let current_bet = prev + bet
                     in if current_bet \<ge> sidepot s1
                        then Inr (True, process_bet current_bet p False (s1\<lparr>pot := pot s1 + bet\<rparr>))
                        else Inr (False, s1\<lparr>bets := (bets s1)(p := None)\<rparr>))))"

text \<open>Posting a sequence of bets, stopping at the first failure; the flags are collected.\<close>

fun post_all ::
  "BettingRound \<Rightarrow> (player \<times> int) list \<Rightarrow> py_error + (bool list \<times> BettingRound)" where
  "post_all s [] = Inr ([], s)"
| "post_all s ((p, bet) # rest) =
     (case post_bet s p bet of
        Inl e \<Rightarrow> Inl e
      | Inr (ok, s') \<Rightarrow>
          (case post_all s' rest of
             Inl e \<Rightarrow> Inl e
           | Inr (oks, s'') \<Rightarrow> Inr (ok # oks, s'')))"

text \<open>The spec's end-to-end table: players A, B, C, D in order, small blind 10 on A and
  big blind 20 on B, empty pot.\<close>

definition scenario :: BettingRound where
  "scenario = BettingRound_init [''A'', ''B'', ''C'', ''D''] [''A'' \<mapsto> 10, ''B'' \<mapsto> 20] 0"

text \<open>The same table once C, D and A have called: B, the big blind, is next.\<close>

definition scenario_called :: BettingRound where
  "scenario_called =
     \<lparr> pot = 80, sidepot = 20, bots = [''A'', ''B'', ''C'', ''D''],
       bets = [''A'' \<mapsto> 20, ''B'' \<mapsto> 20, ''C'' \<mapsto> 20, ''D'' \<mapsto> 20],
       high_better = None, next_better_index = 1 \<rparr>"

section \<open>pokeher/cards.py: suits, cards and hole cards\<close>

text \<open>
  \<^verbatim>\<open>Suit(suit)\<close> asserts \<open>0 \<le> suit < 4\<close>, so a suit is one of four values and
  \<open>suit_index\<close> is its \<^verbatim>\<open>.suit\<close> field. \<^verbatim>\<open>Card(value, suit)\<close> asserts
  \<open>1 < value < 15\<close>; \<open>valid_card\<close> is that assertion. Scores are Python floats, taken
  here as exact rationals: the products \<open>0.01 * value\<close> and \<open>0.1 * value\<close> for the
  thirteen ranks and their sums with a category number keep the order they have as
  rationals.
\<close>

datatype Suit = Clubs | Diamonds | Hearts | Spades

fun suit_index :: "Suit \<Rightarrow> int" where
  "suit_index Clubs = 0"
| "suit_index Diamonds = 1"
| "suit_index Hearts = 2"
| "suit_index Spades = 3"

definition Suit_init :: "int \<Rightarrow> py_error + Suit" where
  "Suit_init i =
     (if i = 0 then Inr Clubs else if i = 1 then Inr Diamonds
      else if i = 2 then Inr Hearts else if i = 3 then Inr Spades
      else Inl AssertionError)"

record card =
  cvalue :: int
  suit :: Suit

definition valid_card :: "card \<Rightarrow> bool" where
  "valid_card c = (cvalue c > 1 \<and> cvalue c < 15)"

definition Card_init :: "int \<Rightarrow> Suit \<Rightarrow> py_error + card" where
  "Card_init v s =
     (if v > 1 \<and> v < 15 then Inr \<lparr> cvalue = v, suit = s \<rparr> else Inl AssertionError)"

definition score_value :: "card \<Rightarrow> rat" where
  "score_value c =
     (if cvalue c < 10 then (1 / 100) * of_int (cvalue c) else (1 / 10) * of_int (cvalue c))"

definition card_lt :: "card \<Rightarrow> card \<Rightarrow> bool" where
  "card_lt a b = ((cvalue a, suit_index (suit a)) < (cvalue b, suit_index (suit b)))"

definition NO_SCORE :: rat where "NO_SCORE = - 1"
definition HIGH_CARD :: rat where "HIGH_CARD = 0"
definition PAIR :: rat where "PAIR = 1"
definition TWO_PAIR :: rat where "TWO_PAIR = 2"
definition TRIPS :: rat where "TRIPS = 3"
definition STRAIGHT :: rat where "STRAIGHT = 4"
definition FLUSH :: rat where "FLUSH = 5"
definition FULL_HOUSE :: rat where "FULL_HOUSE = 6"
definition QUADS :: rat where "QUADS = 7"
definition STRAIGHT_FLUSH :: rat where "STRAIGHT_FLUSH = 8"
definition HAND_LENGTH :: nat where "HAND_LENGTH = 5"

record Hand =
  high :: card
  low :: card
  hscore :: rat

definition Hand_init :: "card \<Rightarrow> card \<Rightarrow> Hand" where
  "Hand_init card1 card2 =
     (if cvalue card1 > cvalue card2
      then \<lparr> high = card1, low = card2, hscore = NO_SCORE \<rparr>
      else \<lparr> high = card2, low = card1, hscore = NO_SCORE \<rparr>)"

definition score :: "Hand \<Rightarrow> rat option" where
  "score h = (if hscore h = NO_SCORE then None else Some (hscore h))"

text \<open>\<^verbatim>\<open>if score and score > NO_SCORE\<close>: the argument is \<^verbatim>\<open>None\<close> (\<open>None\<close> here)
  or a number; \<^verbatim>\<open>None\<close> and zero are falsy.\<close>

definition set_score :: "Hand \<Rightarrow> rat option \<Rightarrow> Hand" where
  "set_score h sc =
     (case sc of
        None \<Rightarrow> h
      | Some v \<Rightarrow> if v \<noteq> 0 \<and> v > NO_SCORE then h\<lparr>hscore := v\<rparr> else h)"

definition hand_is_pair :: "Hand \<Rightarrow> bool" where
  "hand_is_pair h = (cvalue (high h) = cvalue (low h))"

definition hand_is_suited :: "Hand \<Rightarrow> bool" where
  "hand_is_suited h = (suit (high h) = suit (low h))"

definition card_gap :: "Hand \<Rightarrow> int" where
  "card_gap h = (cvalue (high h) - cvalue (low h)) - 1"

definition is_connected :: "Hand \<Rightarrow> bool" where
  "is_connected h = (card_gap h = 0)"

section \<open>pokeher/cards.py: the hand builder\<close>

text \<open>\<^verbatim>\<open>cards.sort(key=(value, suit), reverse=True)\<close>: Python reverses, sorts stably
  and reverses again.\<close>

definition sort_hand :: "card list \<Rightarrow> card list" where
  "sort_hand cards = rev (sort_key (\<lambda>c. (cvalue c, suit_index (suit c))) (rev cards))"

text \<open>The counts of \<^verbatim>\<open>select_flush_suit\<close> are read in the order of the keys 0 to 3.\<close>

definition select_flush_suit :: "card list \<Rightarrow> int option" where
  "select_flush_suit cards =
     (if cards = [] then None
      else List.find
             (\<lambda>s. length (filter (\<lambda>c. suit_index (suit c) = s) cards) \<ge> HAND_LENGTH)
             [0, 1, 2, 3])"

fun straight_loop :: "card option \<Rightarrow> card list \<Rightarrow> bool" where
  "straight_loop last_card [] = True"
| "straight_loop last_card (c # cs) =
     (case last_card of
        None \<Rightarrow> straight_loop (Some c) cs
      | Some l \<Rightarrow> if cvalue l - cvalue c \<noteq> 1 then False else straight_loop (Some c) cs)"

definition is_straight :: "card list \<Rightarrow> bool" where
  "is_straight cards = straight_loop None cards"

text \<open>\<^verbatim>\<open>seen\<close> has the slots 0 to 14, the first two holding \<^verbatim>\<open>None\<close>, so the ranks
  reported are among 2 to 14, in rising order. A rank outside 2 to 14 would fail at
  \<^verbatim>\<open>seen[card.value] += 1\<close>; the assertion of \<^verbatim>\<open>Card\<close> (\<open>valid_card\<close>) leaves none.\<close>

definition seen :: "card list \<Rightarrow> int \<Rightarrow> nat" where
  "seen cards v = length (filter (\<lambda>c. cvalue c = v) cards)"

definition find_pairs_trips_quads :: "card list \<Rightarrow> int list \<times> int list \<times> int list" where
  "find_pairs_trips_quads cards =
     (filter (\<lambda>i. seen cards i = 2) [2..14],
      filter (\<lambda>i. seen cards i = 3) [2..14],
      filter (\<lambda>i. seen cards i = 4) [2..14])"

definition score_flush :: "card list \<Rightarrow> rat" where
  "score_flush cards = 0"

definition score_high_card :: "card list \<Rightarrow> py_error + rat" where
  "score_high_card cards = (case cards of [] \<Rightarrow> Inl IndexError | c # _ \<Rightarrow> Inr (score_value c))"

definition score_pairs :: "card list \<Rightarrow> int list \<Rightarrow> rat" where
  "score_pairs cards ps = 0"

definition score_full_house :: "card list \<Rightarrow> int list \<Rightarrow> int list \<Rightarrow> rat" where
  "score_full_house cards ts ps = 0"

text \<open>The rank part of \<^verbatim>\<open>__score_hand\<close>, after the straight and flush tests: each
  later assignment overwrites the earlier ones.\<close>

definition score_ranks :: "card list \<Rightarrow> rat \<Rightarrow> rat" where
  "score_ranks cards hc =
     (case find_pairs_trips_quads cards of (pairs, trips, quads) \<Rightarrow>
        (let s0 = HIGH_CARD + hc;
             s1 = (if pairs \<noteq> [] then PAIR + score_pairs cards pairs else s0);
             s2 = (if length pairs > 1 then TWO_PAIR + score_pairs cards pairs else s1);
             s3 = (if trips \<noteq> [] then TRIPS + score_pairs cards trips else s2);
             s4 = (if trips \<noteq> [] \<and> pairs \<noteq> []
                   then FULL_HOUSE + score_full_house cards trips pairs else s3);
             s5 = (if quads \<noteq> [] then QUADS + score_pairs cards pairs else s4)
         in s5))"

text \<open>\<^verbatim>\<open>HandBuilder.__score_hand\<close>. \<^verbatim>\<open>self.cards[0]\<close> raises on an empty hand.\<close>

definition HandBuilder_score_hand :: "card list \<Rightarrow> py_error + rat" where
  "HandBuilder_score_hand cards =
     (let sc0 = (if select_flush_suit cards \<noteq> None then FLUSH + score_flush cards
                 else NO_SCORE)
      in case (if is_straight cards
               then (case score_high_card cards of
                       Inl e \<Rightarrow> Inl e
                     | Inr hc \<Rightarrow>
                         Inr ((if sc0 = FLUSH then STRAIGHT_FLUSH else STRAIGHT) + hc))
               else Inr sc0) of
           Inl e \<Rightarrow> Inl e
         | Inr sc1 \<Rightarrow>
             if sc1 > NO_SCORE then Inr sc1
             else (case score_high_card cards of
                     Inl e \<Rightarrow> Inl e
                   | Inr hc \<Rightarrow> Inr (score_ranks cards hc)))"

definition score_hand :: "card list \<Rightarrow> py_error + rat" where
  "score_hand cards =
     (if cards = [] \<or> length cards \<noteq> HAND_LENGTH then Inr NO_SCORE
      else HandBuilder_score_hand (sort_hand cards))"

text \<open>\<^verbatim>\<open>itertools.combinations(xs, k)\<close>, in its order: by positions, lexicographically.\<close>

fun combinations :: "'a list \<Rightarrow> nat \<Rightarrow> 'a list list" where
  "combinations xs 0 = [[]]"
| "combinations [] (Suc k) = []"
| "combinations (x # xs) (Suc k) = map ((#) x) (combinations xs k) @ combinations xs (Suc k)"

fun best_loop :: "card list list \<Rightarrow> rat \<Rightarrow> card list option \<Rightarrow> py_error + card list option" where
  "best_loop [] best_hand_score best_hand = Inr best_hand"
| "best_loop (h # hs) best_hand_score best_hand =
     (case HandBuilder_score_hand h of
        Inl e \<Rightarrow> Inl e
      | Inr sc \<Rightarrow>
          if sc > best_hand_score then best_loop hs sc (Some h)
          else best_loop hs best_hand_score best_hand)"

definition find_hand :: "card list \<Rightarrow> py_error + card list option" where
  "find_hand cards =
     (if cards = [] \<or> length cards < HAND_LENGTH then Inr None
      else if length cards = HAND_LENGTH then Inr (Some cards)
      else best_loop (combinations (sort_hand cards) HAND_LENGTH) NO_SCORE None)"

text \<open>The category number \<^verbatim>\<open>__score_hand\<close> settles on for a hand of valid cards: its
  result with every tiebreak term left out.\<close>

definition category :: "card list \<Rightarrow> rat" where
  "category cards =
     (if is_straight cards
      then (if select_flush_suit cards \<noteq> None then STRAIGHT_FLUSH else STRAIGHT)
      else if select_flush_suit cards \<noteq> None then FLUSH
      else (case find_pairs_trips_quads cards of (pairs, trips, quads) \<Rightarrow>
              if quads \<noteq> [] then QUADS
              else if trips \<noteq> [] \<and> pairs \<noteq> [] then FULL_HOUSE
              else if trips \<noteq> [] then TRIPS
              else if length pairs > 1 then TWO_PAIR
              else if pairs \<noteq> [] then PAIR
              else HIGH_CARD))"

text \<open>Sample cards and hands.\<close>

definition mk :: "int \<Rightarrow> Suit \<Rightarrow> card" where
  "mk v s = \<lparr> cvalue = v, suit = s \<rparr>"

definition ace_high :: "card list" where
  "ace_high = [mk 2 Clubs, mk 14 Spades, mk 9 Clubs, mk 13 Diamonds, mk 5 Hearts]"

definition pair_of_twos :: "card list" where
  "pair_of_twos = [mk 2 Clubs, mk 2 Diamonds, mk 5 Clubs, mk 7 Hearts, mk 9 Spades]"

definition pair_of_aces :: "card list" where
  "pair_of_aces = [mk 14 Clubs, mk 14 Diamonds, mk 5 Clubs, mk 7 Hearts, mk 9 Spades]"

definition broadway_straight :: "card list" where
  "broadway_straight = [mk 14 Clubs, mk 13 Diamonds, mk 12 Clubs, mk 11 Hearts, mk 10 Spades]"

definition low_flush :: "card list" where
  "low_flush = [mk 9 Hearts, mk 7 Hearts, mk 5 Hearts, mk 3 Hearts, mk 2 Hearts]"

definition high_flush :: "card list" where
  "high_flush = [mk 14 Spades, mk 13 Spades, mk 9 Spades, mk 5 Spades, mk 2 Spades]"

definition aces_full :: "card list" where
  "aces_full = [mk 14 Clubs, mk 14 Diamonds, mk 14 Hearts, mk 13 Clubs, mk 13 Spades]"

definition twos_full :: "card list" where
  "twos_full = [mk 2 Clubs, mk 2 Diamonds, mk 2 Hearts, mk 3 Clubs, mk 3 Spades]"

definition big_slick :: Hand where
  "big_slick = Hand_init (mk 13 Spades) (mk 14 Spades)"

section \<open>standalone/preflop_hand_wins.py: the preflop calculator\<close>

text \<open>
  \<^verbatim>\<open>try_hand\<close> shuffles the deck and scores both hands with a hand builder that is not
  part of these sources; what it returns depends only on the two scores, so a trial is
  given by them: \<open>deal hand i\<close> is the pair (our score, their score) of trial \<open>i\<close> for
  \<open>hand\<close>. The deck of \<^verbatim>\<open>Card.full_deck()\<close> is a parameter too.
\<close>

definition TRIES_PER_HAND :: nat where "TRIES_PER_HAND = 10"

definition try_hand :: "rat \<times> rat \<Rightarrow> rat" where
  "try_hand scores =
     (case scores of (our_score, their_score) \<Rightarrow>
        if our_score > their_score then 1
        else if our_score = their_score then 1 / 2
        else 0)"

text \<open>With \<^verbatim>\<open>from __future__ import division\<close> the quotient is the true one.\<close>

definition percentage :: "rat \<Rightarrow> rat \<Rightarrow> py_error + rat" where
  "percentage num denom =
     (if denom = 0 then Inl ZeroDivisionError else Inr ((num / denom) * 100))"

fun tries_loop :: "(nat \<Rightarrow> rat \<times> rat) \<Rightarrow> nat list \<Rightarrow> rat \<Rightarrow> rat" where
  "tries_loop trial [] wins = wins"
| "tries_loop trial (i # is) wins = tries_loop trial is (wins + try_hand (trial i))"

fun run_loop ::
  "(card list \<Rightarrow> nat \<Rightarrow> rat \<times> rat) \<Rightarrow> card list list \<Rightarrow> (card list \<rightharpoonup> rat)
   \<Rightarrow> py_error + (card list \<rightharpoonup> rat)" where
  "run_loop deal [] wins = Inr wins"
| "run_loop deal (hand # hands) wins =
     (case percentage (tries_loop (deal hand) [0..<TRIES_PER_HAND] 0) (of_nat TRIES_PER_HAND) of
        Inl e \<Rightarrow> Inl e
      | Inr percent_pots_won \<Rightarrow> run_loop deal hands (wins(hand \<mapsto> percent_pots_won)))"

definition run :: "card list \<Rightarrow> (card list \<Rightarrow> nat \<Rightarrow> rat \<times> rat) \<Rightarrow> py_error + (card list \<rightharpoonup> rat)" where
  "run deck deal = run_loop deal (combinations deck 2) Map.empty"

section \<open>pokeher/brain.py: the action taken on an equity\<close>

datatype action = Fold | Call

definition pick_action :: "rat \<Rightarrow> action" where
  "pick_action equity = (if equity < 3 / 10 then Fold else Call)"

text \<open>What a lookup in the mapping that \<^verbatim>\<open>run\<close> leaves behind gives for a hand.\<close>

definition stored_equity :: "py_error + (card list \<rightharpoonup> rat) \<Rightarrow> card list \<Rightarrow> py_error + rat option" where
  "stored_equity r hand = (case r of Inl e \<Rightarrow> Inl e | Inr wins \<Rightarrow> Inr (wins hand))"

text \<open>
  Modelled from the spec: \<^verbatim>\<open>Card.full_deck()\<close> is called by the calculator but is not
  in these sources. The spec's deck is "the 52 distinct Card values"; they are listed
  here by rank, then suit.
\<close>

definition full_deck :: "card list" where
  "full_deck = concat (map (\<lambda>v. map (mk v) [Clubs, Diamonds, Hearts, Spades]) [2..14])"

text \<open>A starting hand of that deck, trials that it always wins, and trials of which it
  wins five, ties three and loses two.\<close>

definition pocket_aces :: "card list" where
  "pocket_aces = [mk 14 Hearts, mk 14 Spades]"

definition always_win :: "card list \<Rightarrow> nat \<Rightarrow> rat \<times> rat" where
  "always_win hand i = (1, 0)"

definition mixed_trials :: "card list \<Rightarrow> nat \<Rightarrow> rat \<times> rat" where
  "mixed_trials hand i = (if i < 5 then (1, 0) else if i < 8 then (1, 1) else (0, 1))"

section \<open>Properties of the betting round\<close>

subsection \<open>Construction from forced bets\<close>

lemma map_filter_upd_other:
  "b \<notin> set bs \<Longrightarrow> List.map_filter (m(b \<mapsto> v)) bs = List.map_filter m bs"
  by (induction bs) (auto simp: List.map_filter_simps split: option.splits)

lemma init_loop_step_None:
  "bets s b = None \<Longrightarrow>
   init_loop i (b # bs) s = init_loop (Suc i) bs (set_better_index (int i) (s\<lparr>bets := (bets s)(b \<mapsto> 0)\<rparr>))"
  by simp

lemma init_loop_step_Some:
  "bets s b = Some v \<Longrightarrow>
   init_loop i (b # bs) s = init_loop (Suc i) bs (process_bet v b True (s\<lparr>pot := pot s + v\<rparr>))"
  by simp

lemma set_better_index_fields:
  "pot (set_better_index k s) = pot s" "sidepot (set_better_index k s) = sidepot s"
  "bets (set_better_index k s) = bets s" "high_better (set_better_index k s) = high_better s"
  "bots (set_better_index k s) = bots s"
  by (simp_all add: set_better_index_def)

lemma process_blind_fields:
  "pot (process_bet v b True s) = pot s" "sidepot (process_bet v b True s) = max (sidepot s) v"
  "bets (process_bet v b True s) = (bets s)(b \<mapsto> v)"
  "high_better (process_bet v b True s) = high_better s"
  "bots (process_bet v b True s) = bots s"
  "next_better_index (process_bet v b True s) = next_better_index s"
  by (simp_all add: process_bet_def Let_def max_def)

lemma init_loop_high_better: "high_better (init_loop i bs s) = high_better s"
  by (induction bs arbitrary: i s)
     (auto simp: process_bet_def set_better_index_def Let_def split: option.splits)

lemma init_loop_bots: "bots (init_loop i bs s) = bots s"
  by (induction bs arbitrary: i s)
     (auto simp: process_bet_def set_better_index_def Let_def split: option.splits)

lemma init_loop_pot:
  "distinct bs \<Longrightarrow> pot (init_loop i bs s) = pot s + sum_list (List.map_filter (bets s) bs)"
proof (induction bs arbitrary: i s)
  case Nil
  then show ?case by (simp add: List.map_filter_simps)
next
  case (Cons b bs)
  then have nb: "b \<notin> set bs" and d: "distinct bs" by simp_all
  show ?case
  proof (cases "bets s b")
    case None
    let ?s' = "set_better_index (int i) (s\<lparr>bets := (bets s)(b \<mapsto> 0)\<rparr>)"
    have "pot (init_loop (Suc i) bs ?s') = pot ?s' + sum_list (List.map_filter (bets ?s') bs)"
      by (rule Cons.IH[OF d])
    then show ?thesis
      using None nb
      by (simp only: init_loop_step_None[OF None] set_better_index_fields)
         (simp add: List.map_filter_simps map_filter_upd_other)
  next
    case (Some v)
    let ?s' = "process_bet v b True (s\<lparr>pot := pot s + v\<rparr>)"
    have "pot (init_loop (Suc i) bs ?s') = pot ?s' + sum_list (List.map_filter (bets ?s') bs)"
      by (rule Cons.IH[OF d])
    then show ?thesis
      using Some nb
      by (simp only: init_loop_step_Some[OF Some] process_blind_fields)
         (simp add: List.map_filter_simps map_filter_upd_other)
  qed
qed

lemma init_loop_sidepot:
  "distinct bs \<Longrightarrow>
   sidepot (init_loop i bs s) = Max (insert (sidepot s) (set (List.map_filter (bets s) bs)))"
proof (induction bs arbitrary: i s)
  case Nil
  then show ?case by (simp add: List.map_filter_simps)
next
  case (Cons b bs)
  then have nb: "b \<notin> set bs" and d: "distinct bs" by simp_all
  show ?case
  proof (cases "bets s b")
    case None
    let ?s' = "set_better_index (int i) (s\<lparr>bets := (bets s)(b \<mapsto> 0)\<rparr>)"
    have "sidepot (init_loop (Suc i) bs ?s') = Max (insert (sidepot ?s') (set (List.map_filter (bets ?s') bs)))"
      by (rule Cons.IH[OF d])
    then show ?thesis
      using None nb
      by (simp only: init_loop_step_None[OF None] set_better_index_fields)
         (simp add: List.map_filter_simps map_filter_upd_other)
  next
    case (Some v)
    let ?s' = "process_bet v b True (s\<lparr>pot := pot s + v\<rparr>)"
    have ih: "sidepot (init_loop (Suc i) bs ?s') = Max (insert (sidepot ?s') (set (List.map_filter (bets ?s') bs)))"
      by (rule Cons.IH[OF d])
    have fin: "finite (set (List.map_filter (bets s) bs))" by simp
    have "Max (insert (max (sidepot s) v) (set (List.map_filter (bets s) bs)))
        = Max (insert (sidepot s) (insert v (set (List.map_filter (bets s) bs))))"
      using fin by (cases "set (List.map_filter (bets s) bs) = {}") (simp_all add: max.assoc)
    then show ?thesis
      using Some ih nb
      by (simp only: init_loop_step_Some[OF Some] process_blind_fields)
         (simp add: List.map_filter_simps map_filter_upd_other del: Max_insert)
  qed
qed

lemma init_loop_index_kept:
  "next_better_index s \<noteq> - 1 \<Longrightarrow> next_better_index (init_loop i bs s) = next_better_index s"
  by (induction bs arbitrary: i s)
     (auto simp: process_bet_def set_better_index_def Let_def split: option.splits)

lemma init_loop_index_first:
  "distinct bs \<Longrightarrow> next_better_index s = - 1 \<Longrightarrow>
   (case List.find (\<lambda>b. bets s b = None) bs of
      None \<Rightarrow> next_better_index (init_loop i bs s) = - 1
    | Some p \<Rightarrow> \<exists>k<length bs. next_better_index (init_loop i bs s) = int (i + k) \<and> bs ! k = p)"
proof (induction bs arbitrary: i s)
  case Nil
  then show ?case by simp
next
  case (Cons b bs)
  then have nb: "b \<notin> set bs" and d: "distinct bs" by simp_all
  show ?case
  proof (cases "bets s b")
    case None
    let ?s' = "set_better_index (int i) (s\<lparr>bets := (bets s)(b \<mapsto> 0)\<rparr>)"
    have "next_better_index ?s' = int i"
      using Cons.prems(2) by (simp add: set_better_index_def)
    then have "next_better_index (init_loop (Suc i) bs ?s') = int i"
      using init_loop_index_kept[where s="?s'" and i="Suc i" and bs=bs] by simp
    then show ?thesis using None by auto
  next
    case (Some v)
    let ?s' = "process_bet v b True (s\<lparr>pot := pot s + v\<rparr>)"
    have b': "bets ?s' = bets s" using Some by (auto simp: process_bet_def Let_def)
    have i': "next_better_index ?s' = - 1" using Cons.prems(2) by (simp add: process_bet_def Let_def)
    from Cons.IH[OF d i', where i="Suc i"] show ?thesis
      using Some b' by (auto split: option.splits)
  qed
qed

lemma init_loop_staked:
  "bets s p \<noteq> None \<or> p \<in> set bs \<Longrightarrow> bets (init_loop i bs s) p \<noteq> None"
  by (induction bs arbitrary: i s)
     (auto simp: process_bet_def set_better_index_def Let_def split: option.splits)


text \<open>
  C4. A round built from a list of distinct players and a mapping of non-negative forced
  bets has every listed forced bet in the pot, its side-pot threshold at the largest
  forced bet (0 when nobody posted one), no high bettor, and as next bettor the first
  player of the order without a forced bet, or the first player when all posted one.
\<close>

theorem BettingRound_construction:
  assumes "distinct bs" and "bs \<noteq> []"
    and "\<forall>v \<in> set (List.map_filter forced bs). 0 \<le> v"
  shows "pot (BettingRound_init bs forced pot0) = pot0 + sum_list (List.map_filter forced bs)
       \<and> sidepot (BettingRound_init bs forced pot0) =
           (if List.map_filter forced bs = [] then 0 else Max (set (List.map_filter forced bs)))
       \<and> high_better (BettingRound_init bs forced pot0) = None
       \<and> next_better (BettingRound_init bs forced pot0) =
           Inr (Some (case List.find (\<lambda>b. forced b = None) bs of Some p \<Rightarrow> p | None \<Rightarrow> hd bs))"
proof -
  let ?start = "\<lparr> pot = pot0, sidepot = 0, bots = bs, bets = forced,
            high_better = None, next_better_index = - 1 \<rparr>"
  let ?looped = "init_loop 0 bs ?start"
  let ?s = "BettingRound_init bs forced pot0"
  have s: "?s = set_better_index 0 ?looped" by (simp add: BettingRound_init_def)
  have p: "pot ?s = pot0 + sum_list (List.map_filter forced bs)"
    using init_loop_pot[OF assms(1), where i=0 and s="?start"] by (simp add: s set_better_index_def)
  have sp0: "sidepot ?s = Max (insert 0 (set (List.map_filter forced bs)))"
    using init_loop_sidepot[OF assms(1), where i=0 and s="?start"] by (simp add: s set_better_index_def)
  have sp: "sidepot ?s = (if List.map_filter forced bs = [] then 0 else Max (set (List.map_filter forced bs)))"
  proof (cases "List.map_filter forced bs = []")
    case True
    then show ?thesis using sp0 by simp
  next
    case False
    then have ne: "set (List.map_filter forced bs) \<noteq> {}" by simp
    have "0 \<le> Max (set (List.map_filter forced bs))"
      using assms(3) ne by (meson List.finite_set Max_in)
    then show ?thesis using sp0 False ne by (simp add: max_def)
  qed
  have hb: "high_better ?s = None"
    by (simp add: s set_better_index_def init_loop_high_better)
  have bo: "bots ?s = bs"
    by (simp add: s set_better_index_def init_loop_bots)
  have st: "\<And>p. p \<in> set bs \<Longrightarrow> bets ?s p \<noteq> None"
    using init_loop_staked[where s="?start" and bs=bs and i=0] by (simp add: s set_better_index_def)
  have nb: "next_better ?s =
           Inr (Some (case List.find (\<lambda>b. forced b = None) bs of Some p \<Rightarrow> p | None \<Rightarrow> hd bs))"
  proof (cases "List.find (\<lambda>b. forced b = None) bs")
    case None
    then have "next_better_index ?looped = - 1"
      using init_loop_index_first[OF assms(1), where s="?start" and i=0] by simp
    then have "next_better_index ?s = 0" by (simp add: s set_better_index_def)
    moreover have "hd bs \<in> set bs" using assms(2) by simp
    ultimately show ?thesis
      using None assms(2) st[of "hd bs"] hb bo
      by (simp add: next_better_def py_index_def can_bet_def is_staked_def hd_conv_nth)
  next
    case (Some p)
    then obtain k where k: "k < length bs" "next_better_index ?looped = int k" "bs ! k = p"
      using init_loop_index_first[OF assms(1), where s="?start" and i=0] by auto
    then have "next_better_index ?s = int k" by (simp add: s set_better_index_def)
    moreover have "p \<in> set bs" using k by auto
    ultimately show ?thesis
      using Some k st[of p] hb bo
      by (simp add: next_better_def py_index_def can_bet_def is_staked_def)
  qed
  show ?thesis using p sp hb nb by simp
qed

theorem BettingRound_construction_witness:
  "distinct [''A'', ''B'', ''C'', ''D''] \<and> [''A'', ''B'', ''C'', ''D''] \<noteq> []
   \<and> List.map_filter [''A'' \<mapsto> 10, ''B'' \<mapsto> (20::int)] [''A'', ''B'', ''C'', ''D''] = [10, 20]
   \<and> pot scenario = 30 \<and> sidepot scenario = 20 \<and> high_better scenario = None
   \<and> next_better scenario = Inr (Some ''C'')"
proof -
  have h1: "distinct [''A'', ''B'', ''C'', ''D'']" by simp
  have h2: "[''A'', ''B'', ''C'', ''D''] \<noteq> []" by simp
  have h3: "\<forall>v \<in> set (List.map_filter [''A'' \<mapsto> 10, ''B'' \<mapsto> 20] [''A'', ''B'', ''C'', ''D'']). (0::int) \<le> v"
    by (simp add: List.map_filter_simps)
  show ?thesis
    using h1 h2 h3 BettingRound_construction[OF h1 h2 h3, of 0]
    by (simp add: scenario_def List.map_filter_simps)
qed

subsection \<open>Posting a bet\<close>

lemma next_better_SomeD:
  "next_better s = Inr (Some p) \<Longrightarrow> bets s p \<noteq> None \<and> bots s \<noteq> []"
  by (auto simp: next_better_def py_index_def can_bet_def is_staked_def
      split: sum.splits if_splits)

lemma scenario_next_better: "next_better scenario = Inr (Some ''C'')"
  by (simp add: scenario_def BettingRound_init_def set_better_index_def process_bet_def
      next_better_def py_index_def can_bet_def is_staked_def)

lemma scenario_called_next_better: "next_better scenario_called = Inr (Some ''B'')"
  by (simp add: scenario_called_def next_better_def py_index_def can_bet_def is_staked_def)

lemma scenario_called_reached:
  "post_all scenario [(''C'', 20), (''D'', 20), (''A'', 10)] = Inr ([True, True, True], scenario_called)"
  by (simp add: scenario_def scenario_called_def BettingRound_init_def set_better_index_def
      process_bet_def next_better_def py_index_def can_bet_def is_staked_def post_bet_def Let_def)
     (rule ext, simp)

text \<open>
  C5. When the next bettor posts an amount that leaves the street total strictly below
  the side-pot threshold, the post returns \<open>False\<close>, the player leaves the bet mapping,
  and pot, threshold and high bettor stay as they were.
\<close>

theorem post_bet_under_call:
  assumes "next_better s = Inr (Some p)" and "bets s p = Some prev"
    and "prev + bet < sidepot s"
  shows "\<exists>s'. post_bet s p bet = Inr (False, s') \<and> bets s' = (bets s)(p := None)
            \<and> pot s' = pot s \<and> sidepot s' = sidepot s \<and> high_better s' = high_better s"
  using assms next_better_SomeD[OF assms(1)]
  by (simp add: post_bet_def Let_def)

theorem post_bet_under_call_witness:
  "next_better scenario = Inr (Some ''C'') \<and> bets scenario ''C'' = Some 0
   \<and> 0 + 5 < sidepot scenario
   \<and> (\<exists>s'. post_bet scenario ''C'' 5 = Inr (False, s')
          \<and> bets s' = (bets scenario)(''C'' := None)
          \<and> pot s' = pot scenario \<and> sidepot s' = sidepot scenario
          \<and> high_better s' = high_better scenario)"
proof -
  have h1: "next_better scenario = Inr (Some ''C'')" by (rule scenario_next_better)
  have h2: "bets scenario ''C'' = Some 0"
    by (simp add: scenario_def BettingRound_init_def set_better_index_def process_bet_def)
  have h3: "0 + 5 < sidepot scenario"
    by (simp add: scenario_def BettingRound_init_def set_better_index_def process_bet_def)
  show ?thesis
    using h1 h2 h3 post_bet_under_call[OF h1 h2 h3] by blast
qed

text \<open>
  C10. \<^verbatim>\<open>post_bet\<close> has no check of the amount: whatever the next bettor posts is
  accepted as soon as the street total reaches the threshold, the pot moves by exactly
  that amount (a post of 0 leaves it alone), and this holds for the amounts the no-limit
  policy \<^verbatim>\<open>check_bet\<close> would refuse.
\<close>

theorem post_bet_no_validation:
  assumes "next_better s = Inr (Some p)" and "bets s p = Some prev"
    and "sidepot s \<le> prev + bet"
  shows "\<exists>s'. post_bet s p bet = Inr (True, s') \<and> pot s' = pot s + bet
            \<and> (bet = 0 \<longrightarrow> pot s' = pot s)
            \<and> (bet \<le> 0 \<longrightarrow> \<not> check_bet (pot s) bet)"
  using assms next_better_SomeD[OF assms(1)]
  by (simp add: post_bet_def Let_def process_bet_def check_bet_def)

theorem post_bet_no_validation_witness:
  "next_better scenario_called = Inr (Some ''B'') \<and> bets scenario_called ''B'' = Some 20
   \<and> sidepot scenario_called \<le> 20 + 0
   \<and> (\<exists>s'. post_bet scenario_called ''B'' 0 = Inr (True, s') \<and> pot s' = 80)
   \<and> \<not> check_bet (pot scenario_called) 0"
proof -
  have h1: "next_better scenario_called = Inr (Some ''B'')"
    by (rule scenario_called_next_better)
  have h2: "bets scenario_called ''B'' = Some 20" by (simp add: scenario_called_def)
  have h3: "sidepot scenario_called \<le> 20 + 0" by (simp add: scenario_called_def)
  have p: "pot scenario_called = 80" by (simp add: scenario_called_def)
  show ?thesis
    using h1 h2 h3 p post_bet_no_validation[OF h1 h2 h3] by auto
qed

text \<open>
  C2. The spec's end-to-end table. C is first to act, the four posts are accepted and the
  pot is 80; but nobody raised, so no high bettor was ever set and \<^verbatim>\<open>next_better\<close>
  answers C again where its docstring promises \<^verbatim>\<open>None\<close> for a round that is over.
\<close>

theorem blinds_scenario_stays_open:
  "next_better scenario = Inr (Some ''C'')
   \<and> (\<exists>s'. post_all scenario [(''C'', 20), (''D'', 20), (''A'', 10), (''B'', 0)]
               = Inr ([True, True, True, True], s')
          \<and> pot s' = 80 \<and> high_better s' = None
          \<and> next_better s' = Inr (Some ''C''))"
  by (simp add: scenario_def BettingRound_init_def set_better_index_def process_bet_def
      next_better_def py_index_def can_bet_def is_staked_def post_bet_def Let_def)

section \<open>Properties of the blind rotation\<close>

lemma eliminate_loop_bots:
  "List.map_filter id (fst (eliminate_loop name n i ps sb)) = filter (\<lambda>b. b \<noteq> name) ps"
  by (induction ps arbitrary: i sb) (auto simp: Let_def List.map_filter_simps)

lemma eliminate_player_bots:
  "bm_bots (eliminate_player name m) = filter (\<lambda>b. b \<noteq> name) (bm_bots m)"
  by (simp add: eliminate_player_def Let_def eliminate_loop_bots)

text \<open>With distinct seats and the pointer in range, removing the player of seat \<open>k\<close>
  moves the pointer down by one exactly when the seat is before it.\<close>

lemma eliminate_loop_absent:
  "name \<notin> set ps \<Longrightarrow> snd (eliminate_loop name n i ps sb) = sb"
  by (induction ps arbitrary: i sb) (auto simp: Let_def)

lemma eliminate_loop_pointer:
  "distinct ps \<Longrightarrow> k < length ps \<Longrightarrow> ps ! k = name \<Longrightarrow>
   snd (eliminate_loop name n i ps sb) = (if sb > int (i + k) then (sb - 1) mod int n else sb)"
proof (induction ps arbitrary: i k sb)
  case Nil
  then show ?case by simp
next
  case (Cons p ps)
  show ?case
  proof (cases k)
    case 0
    then have "p = name" "name \<notin> set ps" using Cons.prems by auto
    then show ?thesis using 0 by (simp add: Let_def eliminate_loop_absent)
  next
    case (Suc j)
    then have "p \<noteq> name" using Cons.prems by auto
    moreover have "snd (eliminate_loop name n (Suc i) ps sb) =
        (if sb > int (Suc i + j) then (sb - 1) mod int n else sb)"
      using Cons.prems Suc by (intro Cons.IH) auto
    ultimately show ?thesis using Suc by (simp add: Let_def)
  qed
qed

lemma eliminate_player_pointer:
  assumes "distinct (bm_bots m)" and "k < length (bm_bots m)" and "bm_bots m ! k = name"
    and "0 \<le> sb_index m" and "sb_index m < int (length (bm_bots m))"
  shows "sb_index (eliminate_player name m) = (if int k < sb_index m then sb_index m - 1 else sb_index m)"
  using eliminate_loop_pointer[OF assms(1-3), of "length (bm_bots m)" 0 "sb_index m"] assms(4,5)
  by (auto simp: eliminate_player_def Let_def)

text \<open>
  C6. Three players, the pointer moved to the last seat by two finished hands, and the
  player in that seat eliminated: the pointer is not above the removed seat, so it stays
  at 2 while two players remain, and \<^verbatim>\<open>next_sb\<close> raises \<^verbatim>\<open>IndexError\<close>.
\<close>

theorem eliminate_last_seat_out_of_range:
  "(case finish_hand (BlindManager_init 5 [''A'', ''B'', ''C'']) of
      Inl e \<Rightarrow> Inl e
    | Inr m1 \<Rightarrow>
        (case finish_hand m1 of
           Inl e \<Rightarrow> Inl e
         | Inr m2 \<Rightarrow>
             Inr (sb_index m2, bm_bots (eliminate_player ''C'' m2),
                  sb_index (eliminate_player ''C'' m2), next_sb (eliminate_player ''C'' m2))))
   = Inr (2, [''A'', ''B''], 2, Inl IndexError)"
  by (simp add: finish_hand_def BlindManager_init_def wrap_index_def check_raise_blinds_def
      eliminate_player_def Let_def next_sb_def py_index_def)

section \<open>Properties of hands and their scores\<close>

subsection \<open>Inputs that are not five cards\<close>

text \<open>
  C7. On fewer than five cards \<^verbatim>\<open>find_hand\<close> returns \<^verbatim>\<open>None\<close>, and on a card list
  whose length is not five \<^verbatim>\<open>score_hand\<close> returns the sentinel \<^verbatim>\<open>NO_SCORE\<close>; neither
  raises.
\<close>

theorem short_input_is_invalid:
  "(length cards < 5 \<longrightarrow> find_hand cards = Inr None)
   \<and> (length cards \<noteq> 5 \<longrightarrow> score_hand cards = Inr NO_SCORE)"
  by (simp add: find_hand_def score_hand_def HAND_LENGTH_def)

theorem short_input_is_invalid_witness:
  "find_hand [mk 14 Spades, mk 13 Spades] = Inr None
   \<and> score_hand [mk 14 Spades, mk 13 Spades] = Inr NO_SCORE"
  using short_input_is_invalid[of "[mk 14 Spades, mk 13 Spades]"] by simp

subsection \<open>The memoized score of a pair of hole cards\<close>

text \<open>
  C8, as the spec states it, fails: a score that has been set is not kept. After the
  score 1 has been stored, a second call with 2 replaces it.
\<close>

theorem set_score_twice_overwrites:
  "score big_slick = None
   \<and> score (set_score big_slick (Some 1)) = Some 1
   \<and> score (set_score (set_score big_slick (Some 1)) (Some 2)) = Some 2"
  by (simp add: big_slick_def Hand_init_def mk_def score_def set_score_def NO_SCORE_def)

text \<open>
  C8, amended. A new hand has no score; \<^verbatim>\<open>set_score\<close> does nothing when called with
  \<^verbatim>\<open>None\<close>, with zero or with a value at or below the sentinel \<open>-1\<close>; called with any
  other value (every positive one among them) it stores that value, whatever was stored
  before.
\<close>

theorem set_score_behaviour:
  "score (Hand_init c1 c2) = None
   \<and> set_score h None = h
   \<and> set_score h (Some 0) = h
   \<and> (v \<le> - 1 \<longrightarrow> set_score h (Some v) = h)
   \<and> (v \<noteq> 0 \<and> - 1 < v \<longrightarrow> hscore (set_score h (Some v)) = v \<and> score (set_score h (Some v)) = Some v)"
  by (simp add: Hand_init_def score_def set_score_def NO_SCORE_def)

theorem set_score_behaviour_witness:
  "score (Hand_init (mk 13 Spades) (mk 14 Spades)) = None
   \<and> set_score (set_score big_slick (Some 1)) (Some (- 1)) = set_score big_slick (Some 1)
   \<and> score (set_score (set_score big_slick (Some 1)) (Some 2)) = Some 2"
  using set_score_behaviour[of "mk 13 Spades" "mk 14 Spades" "set_score big_slick (Some 1)" "- 1"]
    set_score_behaviour[of "mk 13 Spades" "mk 14 Spades" "set_score big_slick (Some 1)" 2]
  by simp

subsection \<open>The score of a five-card hand\<close>

lemmas band_defs = NO_SCORE_def HIGH_CARD_def PAIR_def TWO_PAIR_def TRIPS_def STRAIGHT_def
  FLUSH_def FULL_HOUSE_def QUADS_def STRAIGHT_FLUSH_def

lemma score_value_pos: "valid_card c \<Longrightarrow> 0 < score_value c"
  by (simp add: valid_card_def score_value_def)

lemma score_value_less_iff: "score_value a < score_value b \<longleftrightarrow> cvalue a < cvalue b"
proof -
  have lo: "\<And>v::int. v < 10 \<Longrightarrow> (1 / 100) * (of_int v :: rat) < 1"
  proof -
    fix v :: int assume "v < 10"
    then have "(of_int v :: rat) < 10" by linarith
    then show "(1 / 100) * (of_int v :: rat) < 1" by simp
  qed
  have hi: "\<And>v::int. \<not> v < 10 \<Longrightarrow> 1 \<le> (1 / 10) * (of_int v :: rat)"
  proof -
    fix v :: int assume "\<not> v < 10"
    then have "(10 :: rat) \<le> of_int v" by linarith
    then show "1 \<le> (1 / 10) * (of_int v :: rat)" by simp
  qed
  show ?thesis
    using lo[of "cvalue a"] lo[of "cvalue b"] hi[of "cvalue a"] hi[of "cvalue b"]
    by (auto simp: score_value_def)
qed

lemma sort_hand_set: "set (sort_hand cards) = set cards"
  by (simp add: sort_hand_def)

lemma sort_hand_length: "length (sort_hand cards) = length cards"
  by (simp add: sort_hand_def)

lemma sorted_last_max:
  "sorted (map k ys) \<Longrightarrow> ys \<noteq> [] \<Longrightarrow> y \<in> set ys \<Longrightarrow> k y \<le> k (last ys)"
proof (induction ys)
  case Nil
  then show ?case by simp
next
  case (Cons a ys)
  then show ?case by (cases "ys = []") auto
qed

lemma hd_sort_hand:
  assumes "cards \<noteq> []"
  shows "cvalue (hd (sort_hand cards)) = Max (cvalue ` set cards)"
proof -
  let ?k = "\<lambda>c. (cvalue c, suit_index (suit c))"
  let ?ys = "sort_key ?k (rev cards)"
  have ne: "?ys \<noteq> []" using assms by (metis length_0_conv length_rev length_sort)
  have hd: "hd (sort_hand cards) = last ?ys"
    using ne by (simp add: sort_hand_def hd_rev)
  have mem: "last ?ys \<in> set cards" using ne last_in_set[OF ne] by simp
  have top: "\<And>c. c \<in> set cards \<Longrightarrow> cvalue c \<le> cvalue (last ?ys)"
  proof -
    fix c assume "c \<in> set cards"
    then have "c \<in> set ?ys" by simp
    then have "?k c \<le> ?k (last ?ys)"
      using sorted_last_max[of ?k ?ys c] ne by simp
    then show "cvalue c \<le> cvalue (last ?ys)"
      by (auto simp: less_eq_prod_def)
  qed
  have "Max (cvalue ` set cards) = cvalue (last ?ys)"
    using mem top by (intro Max_eqI) auto
  then show ?thesis using hd by simp
qed

lemma score_hand_structure:
  assumes "cards \<noteq> []" and "valid_card (hd cards)"
  shows "HandBuilder_score_hand cards =
           Inr (category cards +
                (if category cards \<in> {HIGH_CARD, STRAIGHT, STRAIGHT_FLUSH}
                 then score_value (hd cards) else 0))"
proof -
  obtain c cs where cards: "cards = c # cs" using assms(1) by (cases cards) auto
  have pos: "0 < score_value c" using assms(2) cards by (simp add: score_value_pos)
  show ?thesis
  proof (cases "is_straight cards")
    case True
    then show ?thesis
      using pos cards
      by (simp add: HandBuilder_score_hand_def category_def score_high_card_def
          score_flush_def band_defs)
  next
    case False
    show ?thesis
    proof (cases "select_flush_suit cards = None")
      case flush: False
      then show ?thesis
        using False cards
        by (simp add: HandBuilder_score_hand_def category_def score_high_card_def
            score_flush_def band_defs)
    next
      case True
      obtain ps ts qs where f: "find_pairs_trips_quads cards = (ps, ts, qs)"
        by (cases "find_pairs_trips_quads cards") auto
      have "HandBuilder_score_hand cards = Inr (score_ranks cards (score_value c))"
        using False True cards
        by (simp add: HandBuilder_score_hand_def score_high_card_def band_defs)
      moreover have "score_ranks cards (score_value c) =
            category cards + (if category cards \<in> {HIGH_CARD, STRAIGHT, STRAIGHT_FLUSH}
                 then score_value (hd cards) else 0)"
        using False True f cards
        by (cases ps; cases ts; cases qs)
           (simp_all add: score_ranks_def category_def score_pairs_def score_full_house_def
            band_defs Let_def)
      ultimately show ?thesis by simp
    qed
  qed
qed

lemma score_hand_sorted:
  assumes "length h = 5" and "\<forall>c \<in> set h. valid_card c"
  shows "score_hand h =
           Inr (category (sort_hand h) +
                (if category (sort_hand h) \<in> {HIGH_CARD, STRAIGHT, STRAIGHT_FLUSH}
                 then score_value (hd (sort_hand h)) else 0))"
proof -
  have ne: "sort_hand h \<noteq> []" using assms(1) sort_hand_length[of h] by auto
  then have "hd (sort_hand h) \<in> set h" using sort_hand_set[of h] hd_in_set[OF ne] by simp
  then have "valid_card (hd (sort_hand h))" using assms(2) by simp
  from score_hand_structure[OF ne this] show ?thesis
    using assms(1) by (auto simp: score_hand_def HAND_LENGTH_def)
qed

lemma score_value_le: "valid_card c \<Longrightarrow> score_value c \<le> 14 / 10"
proof -
  assume "valid_card c"
  then have "cvalue c \<le> 14" by (simp add: valid_card_def)
  then have "(of_int (cvalue c) :: rat) \<le> 14" by linarith
  then show ?thesis by (simp add: score_value_def)
qed

lemma score_band_bounds:
  assumes "length h = 5" and "\<forall>c \<in> set h. valid_card c"
  shows "\<exists>s. score_hand h = Inr s \<and> category (sort_hand h) \<le> s
             \<and> s \<le> category (sort_hand h) + 14 / 10"
proof -
  have ne: "sort_hand h \<noteq> []" using assms(1) sort_hand_length[of h] by auto
  then have "hd (sort_hand h) \<in> set h" using sort_hand_set[of h] hd_in_set[OF ne] by simp
  then have v: "valid_card (hd (sort_hand h))" using assms(2) by simp
  show ?thesis
    using score_hand_sorted[OF assms] score_value_pos[OF v] score_value_le[OF v]
    by (auto simp: less_imp_le)
qed

text \<open>
  C1. The bands overlap. A rank of ten or more adds between 1.0 and 1.4 to the category
  number, so an ace-high hand with no pair (1.4) scores above a pair of twos (1), and a
  straight to the ace (5.4) above a flush (5).
\<close>

theorem score_bands_overlap:
  "category (sort_hand ace_high) = HIGH_CARD \<and> category (sort_hand pair_of_twos) = PAIR
   \<and> score_hand ace_high = Inr (14 / 10) \<and> score_hand pair_of_twos = Inr 1
   \<and> category (sort_hand broadway_straight) = STRAIGHT \<and> category (sort_hand low_flush) = FLUSH
   \<and> score_hand broadway_straight = Inr (54 / 10) \<and> score_hand low_flush = Inr 5"
  by code_simp

text \<open>What the scorer does inside a category, for hands of five valid cards: the rank
  of the highest card orders the high-card, straight and straight-flush hands; every
  other category has the one score, its category number.\<close>

lemma score_within_category:
  assumes "length h1 = 5" and "length h2 = 5"
    and "\<forall>c \<in> set h1. valid_card c" and "\<forall>c \<in> set h2. valid_card c"
    and "category (sort_hand h1) = category (sort_hand h2)"
  shows "\<exists>s1 s2. score_hand h1 = Inr s1 \<and> score_hand h2 = Inr s2 \<and>
           (if category (sort_hand h1) \<in> {HIGH_CARD, STRAIGHT, STRAIGHT_FLUSH}
            then (s1 < s2 \<longleftrightarrow> Max (cvalue ` set h1) < Max (cvalue ` set h2))
            else s1 = category (sort_hand h1) \<and> s2 = s1)"
proof -
  have n1: "h1 \<noteq> []" and n2: "h2 \<noteq> []" using assms(1,2) by auto
  show ?thesis
    using score_hand_sorted[OF assms(1) assms(3)] score_hand_sorted[OF assms(2) assms(4)]
      assms(5) hd_sort_hand[OF n1] hd_sort_hand[OF n2]
      score_value_less_iff[of "hd (sort_hand h1)" "hd (sort_hand h2)"]
    by simp
qed

text \<open>
  C3. Inside the pair, flush and full-house categories the deciding ranks do not reach
  the score: \<^verbatim>\<open>__score_pairs\<close>, \<^verbatim>\<open>__score_flush\<close> and \<^verbatim>\<open>__score_full_house\<close>
  return 0. A pair of aces scores what a pair of twos scores, an ace-high flush what a
  nine-high flush scores, and aces full of kings what twos full of threes scores.
\<close>

theorem pair_rank_does_not_count:
  "category (sort_hand pair_of_twos) = PAIR \<and> category (sort_hand pair_of_aces) = PAIR
   \<and> fst (find_pairs_trips_quads (sort_hand pair_of_twos)) = [2]
   \<and> fst (find_pairs_trips_quads (sort_hand pair_of_aces)) = [14]
   \<and> score_hand pair_of_twos = Inr 1 \<and> score_hand pair_of_aces = Inr 1
   \<and> category (sort_hand low_flush) = FLUSH \<and> category (sort_hand high_flush) = FLUSH
   \<and> score_hand low_flush = Inr 5 \<and> score_hand high_flush = Inr 5
   \<and> category (sort_hand twos_full) = FULL_HOUSE \<and> category (sort_hand aces_full) = FULL_HOUSE
   \<and> score_hand twos_full = Inr 6 \<and> score_hand aces_full = Inr 6"
  by code_simp

section \<open>Properties of the preflop calculator\<close>

lemma try_hand_values: "try_hand sc \<in> {0, 1 / 2, 1}"
  by (simp add: try_hand_def split: prod.splits)

lemma try_hand_bounds: "0 \<le> try_hand sc \<and> try_hand sc \<le> 1"
  by (simp add: try_hand_def split: prod.splits)

lemma tries_loop_sum:
  "tries_loop trial is wins = wins + sum_list (map (\<lambda>i. try_hand (trial i)) is)"
  by (induction "is" arbitrary: wins) (simp_all add: add.assoc)

lemma tries_total:
  "tries_loop trial [0..<TRIES_PER_HAND] 0 = (\<Sum>i = 0..<TRIES_PER_HAND. try_hand (trial i))"
  by (simp add: tries_loop_sum interv_sum_list_conv_sum_set_nat)

lemma tries_total_bounds:
  "0 \<le> (\<Sum>i = 0..<TRIES_PER_HAND. try_hand (trial i))
   \<and> (\<Sum>i = 0..<TRIES_PER_HAND. try_hand (trial i)) \<le> of_nat TRIES_PER_HAND"
proof -
  have "(\<Sum>i = 0..<TRIES_PER_HAND. try_hand (trial i)) \<le> (\<Sum>i = 0..<TRIES_PER_HAND. 1)"
    by (rule sum_mono) (simp add: try_hand_bounds)
  moreover have "0 \<le> (\<Sum>i = 0..<TRIES_PER_HAND. try_hand (trial i))"
    by (rule sum_nonneg) (simp add: try_hand_bounds)
  ultimately show ?thesis by simp
qed

lemma hand_percentage:
  "percentage (tries_loop (deal hand) [0..<TRIES_PER_HAND] 0) (of_nat TRIES_PER_HAND)
     = Inr (((\<Sum>i = 0..<TRIES_PER_HAND. try_hand (deal hand i)) / of_nat TRIES_PER_HAND) * 100)"
  unfolding tries_total percentage_def by (simp add: TRIES_PER_HAND_def)

lemma run_loop_values:
  "\<exists>w. run_loop deal hands wins = Inr w
     \<and> (\<forall>h. w h = (if h \<in> set hands
                     then Some (((\<Sum>i = 0..<TRIES_PER_HAND. try_hand (deal h i)) / of_nat TRIES_PER_HAND) * 100)
                     else wins h))"
proof (induction hands arbitrary: wins)
  case Nil
  then show ?case by simp
next
  case (Cons hand hands)
  let ?p = "((\<Sum>i = 0..<TRIES_PER_HAND. try_hand (deal hand i)) / of_nat TRIES_PER_HAND) * 100"
  obtain w where w: "run_loop deal hands (wins(hand \<mapsto> ?p)) = Inr w"
    "\<forall>h. w h = (if h \<in> set hands
                     then Some (((\<Sum>i = 0..<TRIES_PER_HAND. try_hand (deal h i)) / of_nat TRIES_PER_HAND) * 100)
                     else (wins(hand \<mapsto> ?p)) h)"
    using Cons.IH[where wins="wins(hand \<mapsto> ?p)"] by blast
  have "run_loop deal (hand # hands) wins = Inr w"
    using w(1) by (simp add: hand_percentage)
  moreover have "\<forall>h. w h = (if h \<in> set (hand # hands)
                     then Some (((\<Sum>i = 0..<TRIES_PER_HAND. try_hand (deal h i)) / of_nat TRIES_PER_HAND) * 100)
                     else wins h)"
    using w(2) by auto
  ultimately show ?case by blast
qed

lemma run_values:
  "\<exists>w. run deck deal = Inr w
     \<and> (\<forall>h. w h = (if h \<in> set (combinations deck 2)
                     then Some (((\<Sum>i = 0..<TRIES_PER_HAND. try_hand (deal h i)) / of_nat TRIES_PER_HAND) * 100)
                     else None))"
  unfolding run_def using run_loop_values[of deal "combinations deck 2" Map.empty] by simp

lemma combinations_suffix:
  "h \<in> set (combinations ys k) \<Longrightarrow> h \<in> set (combinations (xs @ ys) k)"
proof (induction xs)
  case Nil
  then show ?case by simp
next
  case (Cons x xs)
  then show ?case by (cases k) auto
qed

lemma full_deck_aces:
  "full_deck = take 48 full_deck @ [mk 14 Clubs, mk 14 Diamonds, mk 14 Hearts, mk 14 Spades]"
  by code_simp

lemma pocket_aces_dealt: "pocket_aces \<in> set (combinations full_deck 2)"
proof -
  have "pocket_aces \<in> set (combinations [mk 14 Clubs, mk 14 Diamonds, mk 14 Hearts, mk 14 Spades] 2)"
    by (simp add: pocket_aces_def numeral_2_eq_2)
  then have "pocket_aces \<in> set (combinations (take 48 full_deck @ [mk 14 Clubs, mk 14 Diamonds, mk 14 Hearts, mk 14 Spades]) 2)"
    by (rule combinations_suffix)
  then show ?thesis using full_deck_aces by simp
qed

lemma full_deck_size: "length full_deck = 52 \<and> distinct full_deck"
  by code_simp

lemma always_win_total: "(\<Sum>i = 0..<TRIES_PER_HAND. try_hand (always_win h i)) = 10"
  by (simp add: always_win_def try_hand_def TRIES_PER_HAND_def)


lemma mixed_trials_total: "(\<Sum>i = 0..<TRIES_PER_HAND. try_hand (mixed_trials h i)) = 13 / 2"
proof -
  have "(\<Sum>i = 0..<TRIES_PER_HAND. try_hand (mixed_trials h i))
      = sum_list (map (\<lambda>i. try_hand (mixed_trials h i)) [0..<TRIES_PER_HAND])"
    by (simp add: interv_sum_list_conv_sum_set_nat)
  also have "\<dots> = 13 / 2"
    by (simp add: TRIES_PER_HAND_def upt_rec mixed_trials_def try_hand_def)
  finally show ?thesis .
qed

text \<open>
  C9, as the spec states it, fails: on the full deck, a pair of aces that wins all ten of
  its trials is stored with the value 100, which is not in the interval from 0 to 1 (and
  which the brain's threshold of 0.3 turns into a call).
\<close>

theorem preflop_value_above_one:
  "stored_equity (run full_deck always_win) pocket_aces = Inr (Some 100)
   \<and> \<not> ((100::rat) \<le> 1) \<and> pick_action 100 = Call"
proof -
  obtain w where w: "run full_deck always_win = Inr w"
    "\<forall>h. w h = (if h \<in> set (combinations full_deck 2)
                     then Some (((\<Sum>i = 0..<TRIES_PER_HAND. try_hand (always_win h i)) / of_nat TRIES_PER_HAND) * 100)
                     else None)"
    using run_values[of full_deck always_win] by blast
  have "w pocket_aces = Some (((\<Sum>i = 0..<TRIES_PER_HAND. try_hand (always_win pocket_aces i)) / of_nat TRIES_PER_HAND) * 100)"
    using w(2) pocket_aces_dealt by simp
  then have "w pocket_aces = Some 100"
    unfolding always_win_total by (simp add: TRIES_PER_HAND_def)
  then show ?thesis using w(1) by (simp add: stored_equity_def pick_action_def)
qed

text \<open>
  C9, amended. For every deck and every outcome of the trials, \<^verbatim>\<open>run\<close> returns a
  mapping whose keys are the two-card combinations of the deck; the value stored for a
  hand is 100 times the mean of its \<^verbatim>\<open>TRIES_PER_HAND\<close> trial results, each of them 1
  for a higher score than the opponent's, 0.5 for an equal one and 0 otherwise; so every
  stored value is a percentage between 0 and 100.
\<close>

theorem preflop_values_are_percentages:
  "\<exists>w. run deck deal = Inr w
     \<and> dom w = set (combinations deck 2)
     \<and> (\<forall>hand \<in> set (combinations deck 2).
           w hand = Some (((\<Sum>i = 0..<TRIES_PER_HAND. try_hand (deal hand i)) / of_nat TRIES_PER_HAND) * 100)
           \<and> (\<forall>i. try_hand (deal hand i) =
                  (if snd (deal hand i) < fst (deal hand i) then 1
                   else if fst (deal hand i) = snd (deal hand i) then 1 / 2 else 0)))
     \<and> (\<forall>hand v. w hand = Some v \<longrightarrow> 0 \<le> v \<and> v \<le> 100)"
proof -
  obtain w where w: "run deck deal = Inr w"
    "\<forall>h. w h = (if h \<in> set (combinations deck 2)
                     then Some (((\<Sum>i = 0..<TRIES_PER_HAND. try_hand (deal h i)) / of_nat TRIES_PER_HAND) * 100)
                     else None)"
    using run_values[of deck deal] by blast
  have d: "dom w = set (combinations deck 2)"
    using w(2) by (auto simp: dom_def split: if_splits)
  have t: "\<And>sc. try_hand sc = (if snd sc < fst sc then 1 else if fst sc = snd sc then 1 / 2 else 0)"
    by (simp add: try_hand_def split: prod.splits)
  have b: "\<forall>hand v. w hand = Some v \<longrightarrow> 0 \<le> v \<and> v \<le> 100"
  proof (intro allI impI)
    fix hand v assume "w hand = Some v"
    then have v: "v = ((\<Sum>i = 0..<TRIES_PER_HAND. try_hand (deal hand i)) / of_nat TRIES_PER_HAND) * 100"
      using w(2) by (auto split: if_splits)
    show "0 \<le> v \<and> v \<le> 100"
      using tries_total_bounds[of "deal hand"] unfolding v
      by (simp add: TRIES_PER_HAND_def)
  qed
  show ?thesis using w d t b by auto
qed

theorem preflop_values_are_percentages_witness:
  "pocket_aces \<in> set (combinations full_deck 2)
   \<and> stored_equity (run full_deck mixed_trials) pocket_aces = Inr (Some 65)
   \<and> (0::rat) \<le> 65 \<and> (65::rat) \<le> 100"
proof -
  obtain w where w: "run full_deck mixed_trials = Inr w"
    "\<forall>hand \<in> set (combinations full_deck 2).
        w hand = Some (((\<Sum>i = 0..<TRIES_PER_HAND. try_hand (mixed_trials hand i)) / of_nat TRIES_PER_HAND) * 100)
        \<and> (\<forall>i. try_hand (mixed_trials hand i) =
                  (if snd (mixed_trials hand i) < fst (mixed_trials hand i) then 1
                   else if fst (mixed_trials hand i) = snd (mixed_trials hand i) then 1 / 2 else 0))"
    using preflop_values_are_percentages[of full_deck mixed_trials] by blast
  have "w pocket_aces = Some (((\<Sum>i = 0..<TRIES_PER_HAND. try_hand (mixed_trials pocket_aces i)) / of_nat TRIES_PER_HAND) * 100)"
    using w(2) pocket_aces_dealt by blast
  then have "w pocket_aces = Some 65"
    unfolding mixed_trials_total by (simp add: TRIES_PER_HAND_def)
  then show ?thesis using w(1) pocket_aces_dealt by (simp add: stored_equity_def)
qed

end
